theory Spec2Isabelle
  imports Complex_Main "HOL-Library.AList" "HOL-Library.Multiset"
begin

section \<open>Python values used by the two modules\<close>

text \<open>
  Exceptions are values. \<open>Raised n\<close> stands for an exception named \<open>n\<close> that comes out of a
  callee living outside the two modules (the metric engine, the point-cloud library).
\<close>

datatype py_error =
    ZeroDivisionError
  | KeyError string
  | IndexError
  | AssertionError string
  | Raised string

subsection \<open>Decimal formatting of integers: \<open>f"{i:02}"\<close>\<close>

definition digit_char :: "nat \<Rightarrow> char" where
  "digit_char d = ''0123456789'' ! d"

function str_nat :: "nat \<Rightarrow> string" where
  "str_nat n = (if n < 10 then [digit_char n] else str_nat (n div 10) @ [digit_char (n mod 10)])"
  by pat_completeness auto
termination
  by (relation "measure id") auto

declare str_nat.simps [simp del]

definition zfill :: "nat \<Rightarrow> string \<Rightarrow> string" where
  "zfill w s = replicate (w - length s) (CHR ''0'') @ s"

definition fmt02 :: "nat \<Rightarrow> string" where
  \<comment> \<open>\<open>f"{i:02}"\<close> for a non-negative \<open>i\<close>\<close>
  "fmt02 i = zfill 2 (str_nat i)"

subsection \<open>\<open>assert_debug\<close>\<close>

definition assert_debug :: "bool \<Rightarrow> string \<Rightarrow> py_error + unit" where
  "assert_debug condition message = (if condition then Inr () else Inl (AssertionError message))"

section \<open>\<open>slam/dataset/ct_icp_dataset.py\<close>\<close>

subsection \<open>\<open>CT_ICPDatasetLoader.have_sequence\<close>\<close>

definition KITTI_SEQUENCE :: "string list" where
  \<comment> \<open>\<open>[f"{i:02}" for i in range(22) if i != 3]\<close>\<close>
  "KITTI_SEQUENCE = map fmt02 (filter (\<lambda>i. i \<noteq> 3) [0..<22])"

definition KITTI_CARLA_SEQUENCE :: "string list" where
  \<comment> \<open>\<open>[f"Town{1 + i:02}" for i in range(7)]\<close>\<close>
  "KITTI_CARLA_SEQUENCE = map (\<lambda>i. ''Town'' @ fmt02 (1 + i)) [0..<7]"

definition have_sequence :: "string \<Rightarrow> bool" where
  "have_sequence seq_name \<longleftrightarrow>
     seq_name \<in> set KITTI_SEQUENCE \<or> seq_name \<in> set KITTI_CARLA_SEQUENCE"

subsection \<open>\<open>CT_ICPDatasetSequence\<close>\<close>

record ('pt, 'ts) lidar_frame =
  raw_point :: 'pt
  timestamp :: 'ts


record ('pt, 'ts, 'pose) CT_ICPDatasetSequence =
  dataset_sequences :: "('pt, 'ts) lidar_frame list"
  gt :: "'pose list option"
  gt_pose_channel :: string
  numpy_pc_channel :: string


definition len :: "('pt, 'ts, 'pose) CT_ICPDatasetSequence \<Rightarrow> int" where
  "len self = int (length (dataset_sequences self))"



section \<open>\<open>build_benchmark_md.py\<close>\<close>

definition folder_names :: "string list" where
  \<comment> \<open>\<open>[f"{i:02}" for i in range(11)]\<close>\<close>
  "folder_names = map fmt02 [0..<11]"

subsection \<open>What the builder reads\<close>

record segment_error =
  seg_tr_err :: real

type_synonym kitti_metrics = "real \<times> real \<times> segment_error list"

type_synonym yaml_metrics = "string \<rightharpoonup> (string \<rightharpoonup> real)"

record 'p sequence_folder =
  poses_file :: "'p option"
  gt_poses_file :: "'p option"
  metrics_yaml :: "yaml_metrics option"

record 'p directory =
  dir_path :: string
  child :: "string \<rightharpoonup> 'p sequence_folder"
  overrides_file :: "string list option"

record sequence_metrics =
  tr_err :: real
  rot_err :: real
  errors :: "segment_error list"
  average_time :: real

record entry =
  sequences :: "(string \<times> sequence_metrics) list"
  AVG_tr_err :: real
  AVG_time :: real
  has_all_sequences :: bool
  command :: "string option"

fun join :: "string \<Rightarrow> string list \<Rightarrow> string" where
  "join sep [] = []"
| "join sep [x] = x"
| "join sep (x # y # ys) = x @ sep @ join sep (y # ys)"

definition is_metrics_dir :: "'p directory \<Rightarrow> bool" where
  "is_metrics_dir d = list_ex (\<lambda>folder. child d folder \<noteq> None) folder_names"

definition nsecs_per_frame :: "'p sequence_folder \<Rightarrow> string \<Rightarrow> real option" where
  \<comment> \<open>the field read from \<open>metrics.yaml\<close>, when the file, the sequence's key and the field exist\<close>
  "nsecs_per_frame sf sequence_name =
     (case metrics_yaml sf of
        None \<Rightarrow> None
      | Some metrics_dict \<Rightarrow>
          (case metrics_dict sequence_name of
             None \<Rightarrow> None
           | Some m \<Rightarrow> m ''nsecs_per_frame''))"

definition time_ms :: "'p sequence_folder \<Rightarrow> string \<Rightarrow> real" where
  "time_ms sf sequence_name =
     (case nsecs_per_frame sf sequence_name of
        None \<Rightarrow> - 1
      | Some v \<Rightarrow> v * 1000)"

definition found :: "'p directory \<Rightarrow> string \<Rightarrow> ('p \<times> 'p \<times> 'p sequence_folder) option" where
  "found d sequence_name =
     (case child d sequence_name of
        None \<Rightarrow> None
      | Some sf \<Rightarrow>
          (case poses_file sf of
             None \<Rightarrow> None
           | Some poses \<Rightarrow>
               (case gt_poses_file sf of
                  None \<Rightarrow> None
                | Some gt_poses \<Rightarrow> Some (poses, gt_poses, sf))))"

type_synonym new_metrics = "(string \<times> sequence_metrics) list"

definition sequence_step ::
  "('p \<Rightarrow> 'p \<Rightarrow> py_error + kitti_metrics) \<Rightarrow> 'p directory \<Rightarrow> string
     \<Rightarrow> new_metrics \<times> bool \<Rightarrow> py_error + new_metrics \<times> bool" where
  "sequence_step compute_kitti_metrics d sequence_name st =
     (case found d sequence_name of
        Some (poses, gt_poses, sf) \<Rightarrow>
          (case compute_kitti_metrics poses gt_poses of
             Inl e \<Rightarrow> Inl e
           | Inr (tr, rot, errs) \<Rightarrow>
               Inr (AList.update sequence_name
                      \<lparr>tr_err = tr, rot_err = rot, errors = errs,
                       average_time = time_ms sf sequence_name\<rparr> (fst st),
                    snd st))
      | None \<Rightarrow> Inr (fst st, False))"

fun sequence_loop ::
  "('p \<Rightarrow> 'p \<Rightarrow> py_error + kitti_metrics) \<Rightarrow> 'p directory \<Rightarrow> string list
     \<Rightarrow> new_metrics \<times> bool \<Rightarrow> py_error + new_metrics \<times> bool" where
  "sequence_loop cmp d [] st = Inr st"
| "sequence_loop cmp d (sequence_name # rest) st =
     (case sequence_step cmp d sequence_name st of
        Inl e \<Rightarrow> Inl e
      | Inr st' \<Rightarrow> sequence_loop cmp d rest st')"

fun average_times :: "new_metrics \<Rightarrow> string list \<Rightarrow> py_error + real list" where
  "average_times nm [] = Inr []"
| "average_times nm (seq # rest) =
     (case map_of nm seq of
        None \<Rightarrow> Inl (KeyError seq)
      | Some m \<Rightarrow>
          (case average_times nm rest of
             Inl e \<Rightarrow> Inl e
           | Inr ts \<Rightarrow> Inr (average_time m # ts)))"

definition averages :: "new_metrics \<Rightarrow> bool \<Rightarrow> py_error + real \<times> real" where
  "averages nm has_all =
     (if has_all then
        (let all_errors = concat (map (\<lambda>(seq, seq_metrics). errors seq_metrics) nm) in
         if length all_errors = 0 then Inl ZeroDivisionError
         else
           (let avg_tr_err = sum_list (map seg_tr_err all_errors) / real (length all_errors) in
            case average_times nm folder_names of
              Inl e \<Rightarrow> Inl e
            | Inr ts \<Rightarrow> Inr (avg_tr_err * 100, sum_list ts / real (length folder_names))))
      else Inr (- 1, - 1))"

definition command_line :: "string list \<Rightarrow> string" where
  "command_line overrides_list =
     [CHR 0x60] @ ''python run.py '' @ join '' '' overrides_list @ [CHR 0x60]"

definition new_entry ::
  "('p \<Rightarrow> 'p \<Rightarrow> py_error + kitti_metrics) \<Rightarrow> 'p directory \<Rightarrow> py_error + entry option" where
  "new_entry cmp d =
     (case sequence_loop cmp d folder_names ([], True) of
        Inl e \<Rightarrow> Inl e
      | Inr (nm, has_all) \<Rightarrow>
          if nm = [] then Inr None
          else
            (case averages nm has_all of
               Inl e \<Rightarrow> Inl e
             | Inr (avg, t) \<Rightarrow>
                 Inr (Some \<lparr>sequences = nm, AVG_tr_err = avg, AVG_time = t,
                            has_all_sequences = has_all,
                            command = map_option command_line (overrides_file d)\<rparr>)))"

fun directory_loop ::
  "('p \<Rightarrow> 'p \<Rightarrow> py_error + kitti_metrics) \<Rightarrow> 'p directory list
     \<Rightarrow> (string \<times> entry) list \<Rightarrow> py_error + (string \<times> entry) list" where
  "directory_loop cmp [] metrics = Inr metrics"
| "directory_loop cmp (new_dir # rest) metrics =
     (if is_metrics_dir new_dir then
        (case new_entry cmp new_dir of
           Inl e \<Rightarrow> Inl e
         | Inr None \<Rightarrow> directory_loop cmp rest metrics
         | Inr (Some m) \<Rightarrow> directory_loop cmp rest (AList.update (dir_path new_dir) m metrics))
      else directory_loop cmp rest metrics)"

subsection \<open>Ranking\<close>

datatype sort_value = Finite real | Infinity

instantiation sort_value :: linorder
begin

fun less_eq_sort_value :: "sort_value \<Rightarrow> sort_value \<Rightarrow> bool" where
  "less_eq_sort_value (Finite a) (Finite b) = (a \<le> b)"
| "less_eq_sort_value _ Infinity = True"
| "less_eq_sort_value Infinity (Finite b) = False"

definition less_sort_value :: "sort_value \<Rightarrow> sort_value \<Rightarrow> bool" where
  "less_sort_value x y = (x \<le> y \<and> \<not> y \<le> x)"

instance
proof
  fix x y z :: sort_value
  show "(x < y) = (x \<le> y \<and> \<not> y \<le> x)" by (simp add: less_sort_value_def)
  show "x \<le> x" by (cases x) simp_all
  show "x \<le> y \<Longrightarrow> y \<le> z \<Longrightarrow> x \<le> z" by (cases x; cases y; cases z) simp_all
  show "x \<le> y \<Longrightarrow> y \<le> x \<Longrightarrow> x = y" by (cases x; cases y) simp_all
  show "x \<le> y \<or> y \<le> x" by (cases x; cases y) auto
qed

end

definition db_metrics :: "(string \<times> entry) list \<Rightarrow> (string \<times> real \<times> bool) list" where
  "db_metrics metrics =
     map (\<lambda>(path, entry_metrics).
            (path, AVG_tr_err entry_metrics, has_all_sequences entry_metrics)) metrics"

definition rank_key :: "string \<times> real \<times> bool \<Rightarrow> sort_value" where
  "rank_key x = (if snd (snd x) then Finite (fst (snd x)) else Infinity)"

definition ranked :: "(string \<times> entry) list \<Rightarrow> (string \<times> real \<times> bool) list" where
  "ranked metrics = sort_key rank_key (db_metrics metrics)"

subsection \<open>Rendering\<close>

definition round_half_even :: "real \<Rightarrow> int" where
  "round_half_even x =
     (let f = \<lfloor>x\<rfloor>; r = x - of_int f
      in if r < 1 / 2 then f else if 1 / 2 < r then f + 1 else if even f then f else f + 1)"

definition format_f :: "nat \<Rightarrow> real \<Rightarrow> string" where
  "format_f d x =
     (let digits = zfill (d + 1) (str_nat (nat (round_half_even (\<bar>x\<bar> * 10 ^ d))));
          k = length digits - d
      in (if x < 0 then ''-'' else []) @ take k digits
           @ (if d = 0 then [] else ''.'' @ drop k digits))"

definition basename :: "string \<Rightarrow> string" where
  "basename path = rev (takeWhile (\<lambda>c. c \<noteq> CHR ''/'') (rev path))"

definition path_link :: "(string \<Rightarrow> string) \<Rightarrow> string \<Rightarrow> string" where
  "path_link resolve path = ''['' @ basename path @ '']('' @ resolve path @ '')''"

definition sequence_cell :: "entry \<Rightarrow> string \<Rightarrow> string" where
  "sequence_cell m seq =
     (case map_of (sequences m) seq of
        Some sm \<Rightarrow> format_f 4 (tr_err sm * 100)
      | None \<Rightarrow> [])"

definition columns :: "entry \<Rightarrow> string" where
  "columns m = join '' | '' (map (sequence_cell m) folder_names)"

definition table_line ::
  "(string \<Rightarrow> string) \<Rightarrow> (string \<times> entry) list \<Rightarrow> string \<times> real \<times> bool
     \<Rightarrow> py_error + string" where
  "table_line resolve metrics entry =
     (case entry of (path, avg, add_avg) \<Rightarrow>
        (case map_of metrics path of
           None \<Rightarrow> Inl (KeyError path)
         | Some m \<Rightarrow>
             Inr (''| '' @ path_link resolve path @ '' | '' @ columns m @ '' | ''
                  @ (if add_avg then format_f 4 avg else []) @ '' | ''
                  @ format_f 3 (AVG_time m) @ '' |'' @ [CHR 0x0A])))"

definition command_row ::
  "(string \<Rightarrow> string) \<Rightarrow> (string \<times> entry) list \<Rightarrow> string \<times> real \<times> bool
     \<Rightarrow> py_error + string" where
  "command_row resolve metrics entry =
     (case entry of (path, avg, add_avg) \<Rightarrow>
        (case map_of metrics path of
           None \<Rightarrow> Inl (KeyError path)
         | Some m \<Rightarrow>
             Inr (''| '' @ path_link resolve path @ '' |  ''
                  @ (case command m of Some c \<Rightarrow> c | None \<Rightarrow> []) @ ''   |'' @ [CHR 0x0A])))"

fun report_rows ::
  "(string \<Rightarrow> string) \<Rightarrow> (string \<times> entry) list \<Rightarrow> (string \<times> real \<times> bool) list
     \<Rightarrow> py_error + string list \<times> string list" where
  "report_rows resolve metrics [] = Inr ([], [])"
| "report_rows resolve metrics (entry # rest) =
     (case table_line resolve metrics entry of
        Inl e \<Rightarrow> Inl e
      | Inr line \<Rightarrow>
          (case command_row resolve metrics entry of
             Inl e \<Rightarrow> Inl e
           | Inr cmd \<Rightarrow>
               (case report_rows resolve metrics rest of
                  Inl e \<Rightarrow> Inl e
                | Inr (lines, cmds) \<Rightarrow> Inr (line # lines, cmd # cmds))))"

definition header :: "string list" where
  "header = [''## KITTI Benchmark:'' @ [CHR 0x0A, CHR 0x0A, CHR 0x0A]]"

definition main_table_head :: "string list" where
  "main_table_head =
     [''#### Sorted trajectory error on all sequences:'' @ [CHR 0x0A],
      ''| **Sequence Folder**|'' @ join '' | '' folder_names
        @ ''  |  AVG  | AVG Time (ms) |'' @ [CHR 0x0A],
      concat (replicate (length folder_names + 3) ''| ---: '') @ ''|'' @ [CHR 0x0A]]"

definition command_head :: "string list" where
  "command_head =
     [''#### Command Lines for each entry'' @ [CHR 0x0A],
      ''| **Sequence Folder** | Command Line |'' @ [CHR 0x0A],
      ''| ---: | ---: |'' @ [CHR 0x0A]]"

definition build_benchmark ::
  "('p \<Rightarrow> 'p \<Rightarrow> py_error + kitti_metrics) \<Rightarrow> (string \<Rightarrow> string) \<Rightarrow> string
     \<Rightarrow> 'p directory list \<Rightarrow> py_error + string list" where
  "build_benchmark cmp resolve dataset directory_list =
     (case assert_debug (dataset = ''kitti'')
             ''Only kitti is supported (for now) to build a benchmark'' of
        Inl e \<Rightarrow> Inl e
      | Inr _ \<Rightarrow>
          (case directory_loop cmp directory_list [] of
             Inl e \<Rightarrow> Inl e
           | Inr metrics \<Rightarrow>
               (case report_rows resolve metrics (ranked metrics) of
                  Inl e \<Rightarrow> Inl e
                | Inr (lines, cmds) \<Rightarrow>
                    Inr (header @ main_table_head @ lines @ command_head @ cmds))))"

section \<open>Vocabulary of the statements\<close>

definition evaluated ::
  "('p \<Rightarrow> 'p \<Rightarrow> py_error + kitti_metrics) \<Rightarrow> 'p directory \<Rightarrow> string
     \<Rightarrow> sequence_metrics \<Rightarrow> bool" where
  "evaluated cmp d s m \<longleftrightarrow>
     (case found d s of
        None \<Rightarrow> False
      | Some (p, g, sf) \<Rightarrow>
          (case cmp p g of
             Inl e \<Rightarrow> False
           | Inr (tr, rot, errs) \<Rightarrow>
               m = \<lparr>tr_err = tr, rot_err = rot, errors = errs,
                      average_time = time_ms sf s\<rparr>))"

definition segment_errors :: "entry \<Rightarrow> real list list" where
  \<comment> \<open>per sequence, in the order of the entry, the translational errors of its segments\<close>
  "segment_errors e = map (\<lambda>(s, m). map seg_tr_err (errors m)) (sequences e)"

definition flat_mean :: "real list list \<Rightarrow> real" where
  \<comment> \<open>the mean over all segments of all sequences\<close>
  "flat_mean xss = sum_list (concat xss) / real (length (concat xss))"

definition mean_of_means :: "real list list \<Rightarrow> real" where
  \<comment> \<open>the mean of the per-sequence means\<close>
  "mean_of_means xss =
     sum_list (map (\<lambda>xs. sum_list xs / real (length xs)) xss) / real (length xss)"

definition row_cells :: "(string \<Rightarrow> string) \<Rightarrow> string \<Rightarrow> entry \<Rightarrow> string list" where
  \<comment> \<open>the cells of the table row of an entry, one per column\<close>
  "row_cells resolve path m =
     path_link resolve path
     # map (\<lambda>seq. case map_of (sequences m) seq of
                     Some sm \<Rightarrow> format_f 4 (tr_err sm * 100)
                   | None \<Rightarrow> []) folder_names
     @ [if has_all_sequences m then format_f 4 (AVG_tr_err m) else [],
        format_f 3 (AVG_time m)]"

section \<open>Concrete inputs\<close>



text \<open>
  The metric engine \<open>compute_kitti_metrics\<close> (module \<open>slam.eval.eval_odometry\<close>) is a
  parameter of the model. The concrete inputs use the following stand-in for it, on
  one-dimensional trajectories.
\<close>

definition shape_checked_metrics :: "real list \<Rightarrow> real list \<Rightarrow> py_error + kitti_metrics" where
  \<comment> \<open>Modelled from the spec: \<open>compute_kitti_metrics\<close> is missing from the sources; of its
    contract the precondition is kept (equal lengths, non-empty, otherwise \<open>ShapeMismatch\<close>),
    and one segment per pose, with the distance between estimate and ground truth as its
    error, stands for the drift metric.\<close>
  "shape_checked_metrics poses gt_poses =
     (if length poses \<noteq> length gt_poses \<or> poses = [] then Inl (Raised ''ShapeMismatch'')
      else
        (let errs = map (\<lambda>(a, b). \<lparr>seg_tr_err = \<bar>a - b\<bar>\<rparr>) (zip poses gt_poses)
         in Inr (sum_list (map seg_tr_err errs) / real (length errs), 0, errs)))"

definition run_folder :: "string \<Rightarrow> real list \<Rightarrow> real list \<Rightarrow> real option \<Rightarrow> real list sequence_folder" where
  "run_folder name poses gt_poses timing =
     \<lparr>poses_file = Some poses, gt_poses_file = Some gt_poses,
      metrics_yaml =
        map_option (\<lambda>v. [name \<mapsto> [''nsecs_per_frame'' \<mapsto> v]]) timing\<rparr>"

definition complete_run :: "real list directory" where
  "complete_run =
     \<lparr>dir_path = ''/results/complete'',
      child = (\<lambda>name. if name = ''00'' then Some (run_folder name [6, 6] [0, 0] (Some (1 / 10)))
                      else if name \<in> set folder_names then Some (run_folder name [0] [0] None)
                      else None),
      overrides_file = None\<rparr>"

definition complete_entry :: entry where
  "complete_entry =
     \<lparr>sequences =
        (''00'', \<lparr>tr_err = 6, rot_err = 0,
                  errors = [\<lparr>seg_tr_err = 6\<rparr>, \<lparr>seg_tr_err = 6\<rparr>], average_time = 100\<rparr>)
        # map (\<lambda>name. (name, \<lparr>tr_err = 0, rot_err = 0, errors = [\<lparr>seg_tr_err = 0\<rparr>],
                                average_time = - 1\<rparr>)) (tl folder_names),
      AVG_tr_err = 100, AVG_time = 90 / 11, has_all_sequences = True, command = None\<rparr>"

definition partial_run :: "real list directory" where
  "partial_run =
     \<lparr>dir_path = ''/results/partial'',
      child = [''00'' \<mapsto> run_folder ''00'' [1] [0] (Some 2)],
      overrides_file = Some [''dataset=kitti'', ''slam=icp'']\<rparr>"

definition partial_entry :: entry where
  "partial_entry =
     \<lparr>sequences = [(''00'', \<lparr>tr_err = 1, rot_err = 0, errors = [\<lparr>seg_tr_err = 1\<rparr>],
                             average_time = 2000\<rparr>)],
      AVG_tr_err = - 1, AVG_time = - 1, has_all_sequences = False,
      command = Some (CHR 0x60 # ''python run.py dataset=kitti slam=icp'' @ [CHR 0x60])\<rparr>"


definition mismatch_run :: "real list directory" where
  "mismatch_run =
     \<lparr>dir_path = ''/results/mismatch'',
      child = [''00'' \<mapsto> run_folder ''00'' [1, 2] [0] None],
      overrides_file = None\<rparr>"

section \<open>Evaluation of the fixed name lists\<close>

lemma upt_22: "[0..<22] = [0,1,2,3,4,5,6,7,8,9,10,11,12,13,14,15,16,17,18,19,20,21]"
  by (simp add: upt_rec)

lemma upt_11: "[0..<11] = [0,1,2,3,4,5,6,7,8,9,10]"
  by (simp add: upt_rec)

lemma upt_7: "[0..<7] = [0,1,2,3,4,5,6]"
  by (simp add: upt_rec)

lemma fmt02_small: "n < 10 \<Longrightarrow> fmt02 n = [CHR ''0'', digit_char n]"
  by (simp add: fmt02_def zfill_def str_nat.simps [of n])

lemma fmt02_two: "a < 10 \<Longrightarrow> 0 < a \<Longrightarrow> b < 10
    \<Longrightarrow> fmt02 (10 * a + b) = [digit_char a, digit_char b]"
  by (simp add: fmt02_def zfill_def str_nat.simps [of "10 * a + b"] str_nat.simps [of a])

lemma folder_names_eq:
  "folder_names =
     [''00'', ''01'', ''02'', ''03'', ''04'', ''05'', ''06'', ''07'', ''08'', ''09'', ''10'']"
  using fmt02_two [of 1 0]
  by (simp add: folder_names_def upt_11 fmt02_small digit_char_def)

lemma KITTI_SEQUENCE_eq:
  "KITTI_SEQUENCE =
     [''00'', ''01'', ''02'', ''04'', ''05'', ''06'', ''07'', ''08'', ''09'', ''10'',
      ''11'', ''12'', ''13'', ''14'', ''15'', ''16'', ''17'', ''18'', ''19'', ''20'', ''21'']"
  using fmt02_two [of 1 0] fmt02_two [of 1 1] fmt02_two [of 1 2] fmt02_two [of 1 3]
    fmt02_two [of 1 4] fmt02_two [of 1 5] fmt02_two [of 1 6] fmt02_two [of 1 7]
    fmt02_two [of 1 8] fmt02_two [of 1 9] fmt02_two [of 2 0] fmt02_two [of 2 1]
  by (simp add: KITTI_SEQUENCE_def upt_22 fmt02_small digit_char_def)

lemma KITTI_CARLA_SEQUENCE_eq:
  "KITTI_CARLA_SEQUENCE =
     [''Town01'', ''Town02'', ''Town03'', ''Town04'', ''Town05'', ''Town06'', ''Town07'']"
  by (simp add: KITTI_CARLA_SEQUENCE_def upt_7 fmt02_small digit_char_def)

section \<open>Ranking\<close>








section \<open>The dataset sequence\<close>

lemma update_fresh: "k \<notin> fst ` set al \<Longrightarrow> AList.update k v al = al @ [(k, v)]"
  by (induction al) auto



section \<open>The loop over the sequences of one directory\<close>

lemma evaluatedI:
  "found d s = Some (p, g, sf) \<Longrightarrow> cmp p g = Inr (tr, rot, errs) \<Longrightarrow>
   evaluated cmp d s \<lparr>tr_err = tr, rot_err = rot, errors = errs, average_time = time_ms sf s\<rparr>"
  by (simp add: evaluated_def)

lemma evaluatedE:
  assumes "evaluated cmp d s m"
  obtains p g sf tr rot errs where "found d s = Some (p, g, sf)" "cmp p g = Inr (tr, rot, errs)"
    "m = \<lparr>tr_err = tr, rot_err = rot, errors = errs, average_time = time_ms sf s\<rparr>"
proof -
  from assms obtain p g sf where f: "found d s = Some (p, g, sf)"
    by (auto simp: evaluated_def split: option.splits)
  with assms obtain tr rot errs where "cmp p g = Inr (tr, rot, errs)"
    "m = \<lparr>tr_err = tr, rot_err = rot, errors = errs, average_time = time_ms sf s\<rparr>"
    by (auto simp: evaluated_def split: sum.splits)
  with f that show thesis by blast
qed

lemma distinct_folder_names: "distinct folder_names"
  by (simp add: folder_names_eq)

lemma length_folder_names: "length folder_names = 11"
  by (simp add: folder_names_eq)

lemma sequence_step_cases:
  obtains (missing) "found d s = None" "sequence_step cmp d s st = Inr (fst st, False)"
  | (failed) p g sf e where "found d s = Some (p, g, sf)" "cmp p g = Inl e"
      "sequence_step cmp d s st = Inl e"
  | (stored) p g sf tr rot errs where "found d s = Some (p, g, sf)"
      "cmp p g = Inr (tr, rot, errs)"
      "sequence_step cmp d s st =
         Inr (AList.update s \<lparr>tr_err = tr, rot_err = rot, errors = errs,
                              average_time = time_ms sf s\<rparr> (fst st), snd st)"
proof (cases "found d s")
  case None
  show ?thesis
    by (rule missing [OF None]) (simp add: sequence_step_def None)
next
  case (Some a)
  then obtain p g sf where f: "found d s = Some (p, g, sf)"
    by (cases a) auto
  show ?thesis
  proof (cases "cmp p g")
    case (Inl e)
    show ?thesis
      by (rule failed [OF f Inl]) (simp add: sequence_step_def f Inl)
  next
    case (Inr r)
    then obtain tr rot errs where c: "cmp p g = Inr (tr, rot, errs)"
      by (cases r) auto
    show ?thesis
      by (rule stored [OF f c]) (simp add: sequence_step_def f c)
  qed
qed

text \<open>What a successful run of the loop has stored.\<close>

lemma sequence_loop_result:
  assumes "sequence_loop cmp d names (nm, b) = Inr (nm', b')"
    and "distinct names" and "set names \<inter> fst ` set nm = {}"
  shows "b' = (b \<and> (\<forall>s\<in>set names. found d s \<noteq> None))
       \<and> (\<exists>add. nm' = nm @ add
             \<and> map fst add = filter (\<lambda>s. found d s \<noteq> None) names
             \<and> (\<forall>(s, m)\<in>set add. evaluated cmp d s m))"
  using assms
proof (induction names arbitrary: nm b)
  case Nil
  then show ?case by simp
next
  case (Cons s rest)
  show ?case
  proof (cases rule: sequence_step_cases [of d s cmp "(nm, b)"])
    case missing
    with Cons.prems(1) have run: "sequence_loop cmp d rest (nm, False) = Inr (nm', b')"
      by simp
    from Cons.prems have "distinct rest" "set rest \<inter> fst ` set nm = {}" by auto
    from Cons.IH [OF run this] obtain add where
      "b' = (False \<and> (\<forall>s\<in>set rest. found d s \<noteq> None))"
      "nm' = nm @ add" "map fst add = filter (\<lambda>s. found d s \<noteq> None) rest"
      "\<forall>(s, m)\<in>set add. evaluated cmp d s m"
      by blast
    with missing(1) show ?thesis by simp
  next
    case (failed p g sf e)
    with Cons.prems(1) show ?thesis by simp
  next
    case (stored p g sf tr rot errs)
    let ?m = "\<lparr>tr_err = tr, rot_err = rot, errors = errs, average_time = time_ms sf s\<rparr>"
    from Cons.prems have fresh: "s \<notin> fst ` set nm" by auto
    then have upd: "AList.update s ?m nm = nm @ [(s, ?m)]" by (rule update_fresh)
    with stored(3) Cons.prems(1)
    have run: "sequence_loop cmp d rest (nm @ [(s, ?m)], b) = Inr (nm', b')"
      by simp
    from Cons.prems have "distinct rest" "set rest \<inter> fst ` set (nm @ [(s, ?m)]) = {}" by auto
    from Cons.IH [OF run this] obtain add where
      b': "b' = (b \<and> (\<forall>s\<in>set rest. found d s \<noteq> None))"
      and add: "nm' = (nm @ [(s, ?m)]) @ add"
        "map fst add = filter (\<lambda>s. found d s \<noteq> None) rest"
        "\<forall>(s, m)\<in>set add. evaluated cmp d s m"
      by blast
    have "nm' = nm @ ((s, ?m) # add)" using add(1) by simp
    moreover have "map fst ((s, ?m) # add) = filter (\<lambda>s. found d s \<noteq> None) (s # rest)"
      using add(2) stored(1) by simp
    moreover have "\<forall>(s, m)\<in>set ((s, ?m) # add). evaluated cmp d s m"
      using add(3) stored(1,2) by (simp add: evaluated_def)
    moreover have "b' = (b \<and> (\<forall>s\<in>set (s # rest). found d s \<noteq> None))"
      using b' stored(1) by simp
    ultimately show ?thesis by (intro conjI exI [of _ "(s, ?m) # add"])
  qed
qed

text \<open>A failing comparison makes the loop fail.\<close>

lemma sequence_loop_failure:
  assumes "s \<in> set names" "found d s = Some (p, g, sf)" "cmp p g = Inl e"
  shows "\<exists>e'. sequence_loop cmp d names st = Inl e'"
  using assms(1)
proof (induction names arbitrary: st)
  case Nil
  then show ?case by simp
next
  case (Cons x rest)
  show ?case
  proof (cases "x = s")
    case True
    then show ?thesis using assms(2,3) by (simp add: sequence_step_def)
  next
    case False
    with Cons.prems have "s \<in> set rest" by simp
    from Cons.IH [OF this] show ?thesis
      by (cases "sequence_step cmp d x st") auto
  qed
qed


section \<open>The entry of one directory\<close>

lemma average_times_present:
  "\<forall>s\<in>set names. \<exists>m. map_of nm s = Some m \<Longrightarrow>
   average_times nm names = Inr (map (\<lambda>s. average_time (the (map_of nm s))) names)"
  by (induction names) auto

lemma average_times_keys:
  assumes "distinct (map fst nm)"
  shows "average_times nm (map fst nm) = Inr (map (\<lambda>(s, m). average_time m) nm)"
proof -
  have look: "map_of nm (fst x) = Some (snd x)" if "x \<in> set nm" for x
    using assms that by (cases x) simp
  then have "\<forall>s\<in>set (map fst nm). \<exists>m. map_of nm s = Some m" by auto
  from average_times_present [OF this]
  have "average_times nm (map fst nm)
          = Inr (map (\<lambda>s. average_time (the (map_of nm s))) (map fst nm))" .
  also have "map (\<lambda>s. average_time (the (map_of nm s))) (map fst nm)
               = map (\<lambda>(s, m). average_time m) nm"
    using look by (auto simp: case_prod_beta)
  finally show ?thesis .
qed

text \<open>The shape of every entry that is produced.\<close>

lemma new_entry_Some:
  assumes "new_entry cmp d = Inr (Some e)"
  shows "sequences e \<noteq> []
       \<and> map fst (sequences e) = filter (\<lambda>s. found d s \<noteq> None) folder_names
       \<and> has_all_sequences e = (\<forall>s\<in>set folder_names. found d s \<noteq> None)
       \<and> (\<forall>(s, m)\<in>set (sequences e). evaluated cmp d s m)
       \<and> averages (sequences e) (has_all_sequences e) = Inr (AVG_tr_err e, AVG_time e)"
proof -
  from assms obtain nm b where
    run: "sequence_loop cmp d folder_names ([], True) = Inr (nm, b)"
    by (auto simp: new_entry_def split: sum.splits)
  with assms obtain avg t where
    ne: "nm \<noteq> []" and av: "averages nm b = Inr (avg, t)"
    and e: "e = \<lparr>sequences = nm, AVG_tr_err = avg, AVG_time = t, has_all_sequences = b,
                 command = map_option command_line (overrides_file d)\<rparr>"
    by (auto simp: new_entry_def split: sum.splits if_splits)
  from sequence_loop_result [OF run distinct_folder_names] obtain add where
    "b = (True \<and> (\<forall>s\<in>set folder_names. found d s \<noteq> None))"
    "nm = [] @ add" "map fst add = filter (\<lambda>s. found d s \<noteq> None) folder_names"
    "\<forall>(s, m)\<in>set add. evaluated cmp d s m"
    by auto
  with ne av show ?thesis by (simp add: e)
qed

lemma new_entry_complete_keys:
  assumes "new_entry cmp d = Inr (Some e)" "has_all_sequences e"
  shows "map fst (sequences e) = folder_names"
  using new_entry_Some [OF assms(1)] assms(2) by (simp add: filter_id_conv)

section \<open>Evaluation on the concrete inputs\<close>

lemma new_entry_partial_run:
  "new_entry shape_checked_metrics partial_run = Inr (Some partial_entry)"
  by (simp add: new_entry_def folder_names_eq sequence_step_def found_def partial_run_def
      run_folder_def shape_checked_metrics_def time_ms_def nsecs_per_frame_def averages_def
      partial_entry_def command_line_def)


lemma new_entry_mismatch_run:
  "new_entry shape_checked_metrics mismatch_run = Inl (Raised ''ShapeMismatch'')"
  by (simp add: new_entry_def folder_names_eq sequence_step_def found_def mismatch_run_def
      run_folder_def shape_checked_metrics_def)

lemma new_entry_complete_run:
  "new_entry shape_checked_metrics complete_run = Inr (Some complete_entry)"
  by (simp add: new_entry_def folder_names_eq sequence_step_def found_def complete_run_def
      run_folder_def shape_checked_metrics_def time_ms_def nsecs_per_frame_def averages_def
      complete_entry_def)

section \<open>The averages of one entry\<close>

lemma found_child: "found d s = Some (p, g, sf) \<Longrightarrow> child d s = Some sf"
  by (auto simp: found_def split: option.splits)

lemma found_is_metrics_dir:
  "s \<in> set folder_names \<Longrightarrow> found d s \<noteq> None \<Longrightarrow> is_metrics_dir d"
  by (auto simp: is_metrics_dir_def list_ex_iff found_def split: option.splits)

lemma averages_complete:
  assumes "averages nm True = Inr (a, t)"
  shows "concat (map (\<lambda>(s, m). map seg_tr_err (errors m)) nm) \<noteq> []
       \<and> a = 100 * flat_mean (map (\<lambda>(s, m). map seg_tr_err (errors m)) nm)
       \<and> (\<exists>ts. average_times nm folder_names = Inr ts \<and> t = sum_list ts / 11)"
proof -
  have c: "concat (map (\<lambda>(s, m). map seg_tr_err (errors m)) nm)
             = map seg_tr_err (concat (map (\<lambda>(s, m). errors m) nm))"
    by (simp add: map_concat split_def comp_def)
  from assms have ne: "concat (map (\<lambda>(s, m). errors m) nm) \<noteq> []"
    by (auto simp: averages_def Let_def split: if_splits)
  with assms obtain ts where ts: "average_times nm folder_names = Inr ts"
    and a: "a = sum_list (map seg_tr_err (concat (map (\<lambda>(s, m). errors m) nm)))
                  / real (length (concat (map (\<lambda>(s, m). errors m) nm))) * 100"
    and t: "t = sum_list ts / real (length folder_names)"
    by (auto simp: averages_def Let_def split: if_splits sum.splits)
  from a have "a = 100 * flat_mean (map (\<lambda>(s, m). map seg_tr_err (errors m)) nm)"
    unfolding flat_mean_def c by simp
  with ne ts t show ?thesis
    by (simp add: c length_folder_names)
qed


lemma evaluated_time:
  assumes "evaluated cmp d s m"
  shows "\<exists>sf. child d s = Some sf
           \<and> average_time m = (case nsecs_per_frame sf s of None \<Rightarrow> - 1 | Some v \<Rightarrow> v * 1000)"
proof -
  from assms obtain p g sf tr rot errs where
    "found d s = Some (p, g, sf)"
    "m = \<lparr>tr_err = tr, rot_err = rot, errors = errs, average_time = time_ms sf s\<rparr>"
    by (rule evaluatedE)
  then show ?thesis
    by (auto simp: time_ms_def dest: found_child)
qed

section \<open>The loop over the directories\<close>

lemma directory_loop_failure:
  assumes "d \<in> set directory_list" "is_metrics_dir d" "new_entry cmp d = Inl e"
  shows "\<exists>e'. directory_loop cmp directory_list metrics = Inl e'"
  using assms(1)
proof (induction directory_list arbitrary: metrics)
  case Nil
  then show ?case by simp
next
  case (Cons x rest)
  show ?case
  proof (cases "x = d")
    case True
    with assms(2,3) show ?thesis by simp
  next
    case False
    with Cons.prems have "d \<in> set rest" by simp
    from Cons.IH [OF this] show ?thesis
      by (auto split: sum.splits option.splits)
  qed
qed

lemma new_entry_failure:
  assumes "s \<in> set folder_names" "found d s = Some (p, g, sf)" "cmp p g = Inl err"
  shows "\<exists>e. new_entry cmp d = Inl e"
proof -
  from sequence_loop_failure [where cmp = cmp, OF assms]
  obtain e where "sequence_loop cmp d folder_names ([], True) = Inl e"
    by blast
  then show ?thesis by (simp add: new_entry_def)
qed

section \<open>The loop over the directories on the concrete inputs\<close>

lemma directory_loop_partial_mismatch:
  "directory_loop shape_checked_metrics [partial_run, mismatch_run] []
     = Inl (Raised ''ShapeMismatch'')"
proof -
  have "is_metrics_dir partial_run" "is_metrics_dir mismatch_run"
    by (simp_all add: is_metrics_dir_def folder_names_eq partial_run_def mismatch_run_def)
  then show ?thesis
    by (simp add: new_entry_partial_run new_entry_mismatch_run)
qed

lemma directory_loop_partial:
  "directory_loop shape_checked_metrics [partial_run] []
     = Inr [(''/results/partial'', partial_entry)]"
proof -
  have "is_metrics_dir partial_run"
    by (simp add: is_metrics_dir_def folder_names_eq partial_run_def)
  moreover have "dir_path partial_run = ''/results/partial''"
    by (simp add: partial_run_def)
  ultimately show ?thesis
    by (simp add: new_entry_partial_run)
qed


section \<open>Fixed-point formatting\<close>

lemma str_nat_digit: "n < 10 \<Longrightarrow> str_nat n = [digit_char n]"
  by (simp add: str_nat.simps [of n])

lemma str_nat_step: "10 \<le> n \<Longrightarrow> str_nat n = str_nat (n div 10) @ [digit_char (n mod 10)]"
  by (simp add: str_nat.simps [of n])

lemma str_nat_nonempty: "str_nat n \<noteq> []"
  by (simp add: str_nat.simps [of n])

lemma length_zfill: "length (zfill w s) = max w (length s)"
  by (simp add: zfill_def max_def)

lemma format_f_places:
  assumes "0 < d"
  shows "\<exists>sign int_part frac. format_f d x = sign @ int_part @ ''.'' @ frac
           \<and> (sign = [] \<or> sign = ''-'') \<and> int_part \<noteq> [] \<and> length frac = d"
proof -
  define digits where "digits = zfill (d + 1) (str_nat (nat (round_half_even (\<bar>x\<bar> * 10 ^ d))))"
  define k where "k = length digits - d"
  have len: "d + 1 \<le> length digits"
    by (simp add: digits_def length_zfill)
  have f: "format_f d x = (if x < 0 then ''-'' else []) @ take k digits @ ''.'' @ drop k digits"
    using assms by (simp add: format_f_def Let_def digits_def k_def)
  have "take k digits \<noteq> []" using len by (auto simp: k_def)
  moreover have "length (drop k digits) = d" using len by (simp add: k_def)
  ultimately show ?thesis using f by (intro exI [of _ "if x < 0 then ''-'' else []"] exI [of _ "take k digits"] exI [of _ "drop k digits"]) auto
qed

lemma format_f_nonempty: "format_f d x \<noteq> []"
proof -
  have "d + 1 \<le> length (zfill (d + 1) (str_nat (nat (round_half_even (\<bar>x\<bar> * 10 ^ d)))))"
    by (simp add: length_zfill)
  then show ?thesis
    by (auto simp: format_f_def Let_def)
qed

lemma format_f_4_100: "format_f 4 100 = ''100.0000''"
proof -
  have r: "round_half_even (\<bar>100\<bar> * 10 ^ 4) = 1000000"
    by (simp add: round_half_even_def)
  have s: "str_nat 1000000 = ''1000000''"
    by (simp add: str_nat_step str_nat_digit digit_char_def)
  show ?thesis
    unfolding format_f_def r by (simp add: s zfill_def)
qed

lemma format_f_4_minus_1: "format_f 4 (- 1) = ''-1.0000''"
proof -
  have r: "round_half_even (\<bar>- 1\<bar> * 10 ^ 4) = 10000"
    by (simp add: round_half_even_def)
  have s: "str_nat 10000 = ''10000''"
    by (simp add: str_nat_step str_nat_digit digit_char_def)
  show ?thesis
    unfolding format_f_def r by (simp add: s zfill_def)
qed

lemma format_f_3_minus_1: "format_f 3 (- 1) = ''-1.000''"
proof -
  have r: "round_half_even (\<bar>- 1\<bar> * 10 ^ 3) = 1000"
    by (simp add: round_half_even_def)
  have s: "str_nat 1000 = ''1000''"
    by (simp add: str_nat_step str_nat_digit digit_char_def)
  show ?thesis
    unfolding format_f_def r by (simp add: s zfill_def)
qed

section \<open>The rows of the report\<close>

lemma join_Cons: "xs \<noteq> [] \<Longrightarrow> join sep (x # xs) = x @ sep @ join sep xs"
  by (cases xs) simp_all

lemma join_append:
  "xs \<noteq> [] \<Longrightarrow> ys \<noteq> [] \<Longrightarrow> join sep (xs @ ys) = join sep xs @ sep @ join sep ys"
proof (induction xs)
  case Nil
  then show ?case by simp
next
  case (Cons x xs)
  show ?case
  proof (cases "xs = []")
    case True
    with Cons.prems show ?thesis by (simp add: join_Cons)
  next
    case False
    with Cons show ?thesis by (simp add: join_Cons)
  qed
qed

lemma length_row_cells: "length (row_cells resolve path m) = 14"
  by (simp add: row_cells_def length_folder_names)

lemma table_line_cells:
  assumes "map_of metrics path = Some m"
  shows "table_line resolve metrics (path, AVG_tr_err m, has_all_sequences m)
           = Inr (''| '' @ join '' | '' (row_cells resolve path m) @ '' |'' @ [CHR 0x0A])"
proof -
  let ?cells = "map (sequence_cell m) folder_names"
  let ?agg = "if has_all_sequences m then format_f 4 (AVG_tr_err m) else []"
  have ne: "?cells \<noteq> []" by (simp add: folder_names_eq)
  have cells: "row_cells resolve path m = path_link resolve path # ?cells @ [?agg, format_f 3 (AVG_time m)]"
    by (simp add: row_cells_def sequence_cell_def [abs_def])
  have "join '' | '' (path_link resolve path # ?cells @ [?agg, format_f 3 (AVG_time m)])
          = path_link resolve path @ '' | '' @ join '' | '' ?cells @ '' | '' @ ?agg
              @ '' | '' @ format_f 3 (AVG_time m)"
    using ne by (simp add: join_Cons join_append)
  with assms show ?thesis
    unfolding cells by (simp add: table_line_def columns_def)
qed

lemma report_rows_all:
  assumes "\<forall>x\<in>set db. \<exists>m. map_of metrics (fst x) = Some m"
  shows "\<exists>lines cmds. report_rows resolve metrics db = Inr (lines, cmds)
           \<and> list_all2 (\<lambda>x line. table_line resolve metrics x = Inr line) db lines
           \<and> length cmds = length db"
  using assms
proof (induction db)
  case Nil
  then show ?case by simp
next
  case (Cons x db)
  then obtain lines cmds where
    rest: "report_rows resolve metrics db = Inr (lines, cmds)"
      "list_all2 (\<lambda>x line. table_line resolve metrics x = Inr line) db lines"
      "length cmds = length db"
    by auto
  from Cons.prems obtain m where m: "map_of metrics (fst x) = Some m" by auto
  obtain path avg add_avg where x: "x = (path, avg, add_avg)" by (cases x) auto
  from m x obtain line cmd where
    "table_line resolve metrics x = Inr line" "command_row resolve metrics x = Inr cmd"
    by (simp add: table_line_def command_row_def)
  with rest show ?case by simp
qed

lemma directory_loop_distinct:
  "directory_loop cmp directory_list metrics = Inr metrics' \<Longrightarrow> distinct (map fst metrics)
    \<Longrightarrow> distinct (map fst metrics')"
proof (induction directory_list arbitrary: metrics)
  case Nil
  then show ?case by simp
next
  case (Cons d rest)
  show ?case
  proof (cases "is_metrics_dir d")
    case False
    with Cons show ?thesis by simp
  next
    case True
    show ?thesis
    proof (cases "new_entry cmp d")
      case (Inl e)
      with True Cons.prems show ?thesis by simp
    next
      case (Inr r)
      show ?thesis
      proof (cases r)
        case None
        with Inr True Cons show ?thesis by simp
      next
        case (Some m)
        with Inr True Cons.prems(1)
        have "directory_loop cmp rest (AList.update (dir_path d) m metrics) = Inr metrics'"
          by simp
        moreover have "distinct (map fst (AList.update (dir_path d) m metrics))"
          using Cons.prems(2) by (rule distinct_update)
        ultimately show ?thesis by (rule Cons.IH)
      qed
    qed
  qed
qed

lemma ranked_entries:
  assumes "distinct (map fst metrics)" "x \<in> set (ranked metrics)"
  shows "\<exists>m. map_of metrics (fst x) = Some m \<and> snd x = (AVG_tr_err m, has_all_sequences m)"
proof -
  from assms(2) have "x \<in> set (db_metrics metrics)"
    by (simp add: ranked_def)
  then obtain path m where "(path, m) \<in> set metrics"
    "x = (path, AVG_tr_err m, has_all_sequences m)"
    by (auto simp: db_metrics_def)
  with assms(1) show ?thesis by simp
qed

section \<open>Claims\<close>

text \<open>
  C9. For every string \<open>seq_name\<close>, \<open>have_sequence seq_name\<close> is true exactly when
  \<open>seq_name\<close> is one of the two-digit KITTI identifiers 00 to 21 other than 03, or one of
  Town01 to Town07. In particular 03 is not recognised, although 03 is one of the folder
  names the benchmark builder expects.
\<close>

theorem have_sequence_iff:
  "(have_sequence seq_name \<longleftrightarrow>
      seq_name \<in> set [''00'', ''01'', ''02'', ''04'', ''05'', ''06'', ''07'', ''08'', ''09'',
        ''10'', ''11'', ''12'', ''13'', ''14'', ''15'', ''16'', ''17'', ''18'', ''19'', ''20'',
        ''21'', ''Town01'', ''Town02'', ''Town03'', ''Town04'', ''Town05'', ''Town06'',
        ''Town07''])
   \<and> \<not> have_sequence ''03''
   \<and> ''03'' \<in> set folder_names"
  unfolding have_sequence_def KITTI_SEQUENCE_eq KITTI_CARLA_SEQUENCE_eq folder_names_eq
  by auto







text \<open>
  C2. For a complete entry the average error is one hundred times the mean of the
  translational errors over all segments of all eleven sequences taken together (a sequence
  with more segments weighs more); the sequences of the entry are the expected ones, each
  holding the segment errors its comparison returned, and there is at least one segment.
\<close>

theorem average_error_scaled_flat_mean:
  assumes "new_entry cmp d = Inr (Some e)" "has_all_sequences e"
  shows "AVG_tr_err e = 100 * flat_mean (segment_errors e)
       \<and> concat (segment_errors e) \<noteq> []
       \<and> map fst (sequences e) = folder_names
       \<and> (\<forall>(s, m)\<in>set (sequences e). evaluated cmp d s m)"
proof -
  from new_entry_Some [OF assms(1)] assms(2)
  have av: "averages (sequences e) True = Inr (AVG_tr_err e, AVG_time e)"
    and ev: "\<forall>(s, m)\<in>set (sequences e). evaluated cmp d s m"
    by simp_all
  from averages_complete [OF av] ev new_entry_complete_keys [OF assms]
  show ?thesis by (simp add: segment_errors_def)
qed

theorem average_error_scaled_flat_mean_witness:
  "AVG_tr_err complete_entry = 100 * flat_mean (segment_errors complete_entry)
   \<and> flat_mean (segment_errors complete_entry) = 1
   \<and> mean_of_means (segment_errors complete_entry) = 6 / 11
   \<and> map fst (sequences complete_entry) = folder_names"
proof -
  have c: "has_all_sequences complete_entry"
    by (simp add: complete_entry_def)
  have "flat_mean (segment_errors complete_entry) = 1"
    by (simp add: flat_mean_def segment_errors_def complete_entry_def folder_names_eq)
  moreover have "mean_of_means (segment_errors complete_entry) = 6 / 11"
    by (simp add: mean_of_means_def segment_errors_def complete_entry_def folder_names_eq)
  ultimately show ?thesis
    using average_error_scaled_flat_mean [OF new_entry_complete_run c] by simp
qed

theorem average_error_not_flat_mean_counterexample:
  "new_entry shape_checked_metrics complete_run = Inr (Some complete_entry)
   \<and> has_all_sequences complete_entry
   \<and> AVG_tr_err complete_entry = 100
   \<and> flat_mean (segment_errors complete_entry) = 1
   \<and> AVG_tr_err complete_entry \<noteq> flat_mean (segment_errors complete_entry)"
proof -
  have "flat_mean (segment_errors complete_entry) = 1"
    by (simp add: flat_mean_def segment_errors_def complete_entry_def folder_names_eq)
  moreover have "AVG_tr_err complete_entry = 100" "has_all_sequences complete_entry"
    by (simp_all add: complete_entry_def)
  ultimately show ?thesis
    using new_entry_complete_run by simp
qed

text \<open>
  C3. For every expected sequence that is evaluated and whose timing metadata holds a
  \<open>nsecs_per_frame\<close> field, the time stored for the sequence is that field's value multiplied
  by 1000.
\<close>

theorem sequence_time_scaling:
  assumes "new_entry cmp d = Inr (Some e)"
    and "s \<in> set folder_names" "found d s = Some (p, g, sf)"
    and "nsecs_per_frame sf s = Some v"
  shows "\<exists>m. map_of (sequences e) s = Some m \<and> average_time m = v * 1000"
proof -
  note shape = new_entry_Some [OF assms(1)]
  from shape have keys: "map fst (sequences e) = filter (\<lambda>s. found d s \<noteq> None) folder_names"
    by simp
  then have dist: "distinct (map fst (sequences e))"
    by (simp add: distinct_folder_names)
  from keys assms(2,3) have "s \<in> set (map fst (sequences e))" by simp
  then obtain m where m: "(s, m) \<in> set (sequences e)" by auto
  with dist have look: "map_of (sequences e) s = Some m" by simp
  from shape m have "evaluated cmp d s m" by auto
  from evaluated_time [OF this] found_child [OF assms(3)] assms(4)
  have "average_time m = v * 1000" by auto
  with look show ?thesis by simp
qed

theorem sequence_time_scaling_witness:
  "map_of (sequences partial_entry) ''00'' =
     Some \<lparr>tr_err = 1, rot_err = 0, errors = [\<lparr>seg_tr_err = 1\<rparr>], average_time = 2000\<rparr>
   \<and> nsecs_per_frame (run_folder ''00'' [1] [0] (Some 2)) ''00'' = Some 2"
proof -
  have f: "found partial_run ''00'' = Some ([1], [0], run_folder ''00'' [1] [0] (Some 2))"
    by (simp add: found_def partial_run_def run_folder_def)
  have n: "nsecs_per_frame (run_folder ''00'' [1] [0] (Some 2)) ''00'' = Some 2"
    by (simp add: nsecs_per_frame_def run_folder_def)
  have s: "''00'' \<in> set folder_names"
    by (simp add: folder_names_eq)
  from sequence_time_scaling [OF new_entry_partial_run s f n] n show ?thesis
    by (simp add: partial_entry_def)
qed

theorem sequence_time_not_micro_counterexample:
  "new_entry shape_checked_metrics partial_run = Inr (Some partial_entry)
   \<and> found partial_run ''00'' = Some ([1], [0], run_folder ''00'' [1] [0] (Some 2))
   \<and> nsecs_per_frame (run_folder ''00'' [1] [0] (Some 2)) ''00'' = Some 2
   \<and> map_option average_time (map_of (sequences partial_entry) ''00'') = Some 2000
   \<and> (2000 :: real) \<noteq> 2 * (1 / 1000000)"
  using new_entry_partial_run
  by (simp add: found_def partial_run_def run_folder_def nsecs_per_frame_def partial_entry_def)

text \<open>
  C7. For a complete entry the aggregate time is the sum of the times stored for the eleven
  expected sequences divided by eleven, where the time stored for a sequence is its
  \<open>nsecs_per_frame\<close> value times 1000 or, when the sequence has no timing data, the value
  \<open>-1\<close>, which enters the sum like any other.
\<close>

theorem average_time_mean_with_sentinel:
  assumes "new_entry cmp d = Inr (Some e)" "has_all_sequences e"
  shows "AVG_time e = sum_list (map (\<lambda>(s, m). average_time m) (sequences e)) / 11
       \<and> map fst (sequences e) = folder_names
       \<and> (\<forall>(s, m)\<in>set (sequences e). \<exists>sf. child d s = Some sf
             \<and> average_time m = (case nsecs_per_frame sf s of None \<Rightarrow> - 1 | Some v \<Rightarrow> v * 1000))"
proof -
  note shape = new_entry_Some [OF assms(1)]
  have keys: "map fst (sequences e) = folder_names"
    by (rule new_entry_complete_keys [OF assms])
  then have dist: "distinct (map fst (sequences e))"
    by (simp add: distinct_folder_names)
  from shape assms(2)
  have av: "averages (sequences e) True = Inr (AVG_tr_err e, AVG_time e)"
    by simp
  from averages_complete [OF av] obtain ts where
    ts: "average_times (sequences e) folder_names = Inr ts" "AVG_time e = sum_list ts / 11"
    by blast
  from average_times_keys [OF dist] ts(1) keys
  have "ts = map (\<lambda>(s, m). average_time m) (sequences e)" by simp
  with ts(2) have mean: "AVG_time e = sum_list (map (\<lambda>(s, m). average_time m) (sequences e)) / 11"
    by simp
  have times: "\<forall>(s, m)\<in>set (sequences e). \<exists>sf. child d s = Some sf
             \<and> average_time m = (case nsecs_per_frame sf s of None \<Rightarrow> - 1 | Some v \<Rightarrow> v * 1000)"
    using shape evaluated_time [where cmp = cmp and d = d] by fast
  from mean keys times show ?thesis by simp
qed

theorem average_time_mean_with_sentinel_witness:
  "AVG_time complete_entry = (100 + 10 * (- 1)) / 11
   \<and> map (\<lambda>(s, m). average_time m) (sequences complete_entry)
       = [100, - 1, - 1, - 1, - 1, - 1, - 1, - 1, - 1, - 1, - 1]"
proof -
  have c: "has_all_sequences complete_entry"
    by (simp add: complete_entry_def)
  have "map (\<lambda>(s, m). average_time m) (sequences complete_entry)
       = [100, - 1, - 1, - 1, - 1, - 1, - 1, - 1, - 1, - 1, - 1]"
    by (simp add: complete_entry_def folder_names_eq)
  with average_time_mean_with_sentinel [OF new_entry_complete_run c] show ?thesis
    by simp
qed

text \<open>
  C4. A failure while evaluating one comparison is not confined to its result set: when the
  comparison of any expected sequence of any visited directory fails, the loop over the
  directories fails as a whole and the builder returns the failure; no entry of any result
  set is produced.
\<close>

theorem failed_comparison_aborts_batch:
  assumes "d \<in> set directory_list" "s \<in> set folder_names"
    and "found d s = Some (p, g, sf)" "cmp p g = Inl err"
  shows "(\<exists>e. directory_loop cmp directory_list metrics = Inl e)
       \<and> (\<exists>e. build_benchmark cmp resolve dataset directory_list = Inl e)"
proof -
  from new_entry_failure [where cmp = cmp, OF assms(2,3,4)]
  obtain e where e: "new_entry cmp d = Inl e" by blast
  from assms(2,3) have m: "is_metrics_dir d"
    by (auto intro: found_is_metrics_dir)
  have loop: "\<exists>e'. directory_loop cmp directory_list metrics' = Inl e'" for metrics'
    by (rule directory_loop_failure [OF assms(1) m e])
  from loop [of "[]"] have "\<exists>e. build_benchmark cmp resolve dataset directory_list = Inl e"
    by (auto simp: build_benchmark_def split: sum.splits)
  with loop [of metrics] show ?thesis by simp
qed

theorem failed_comparison_aborts_batch_witness:
  "directory_loop shape_checked_metrics [partial_run, mismatch_run] []
      = Inl (Raised ''ShapeMismatch'')
   \<and> build_benchmark shape_checked_metrics id ''kitti'' [partial_run, mismatch_run]
      = Inl (Raised ''ShapeMismatch'')"
proof -
  have f: "found mismatch_run ''00'' = Some ([1, 2], [0], run_folder ''00'' [1, 2] [0] None)"
    by (simp add: found_def mismatch_run_def run_folder_def)
  have c: "shape_checked_metrics [1, 2] [0] = Inl (Raised ''ShapeMismatch'')"
    by (simp add: shape_checked_metrics_def)
  have s: "''00'' \<in> set folder_names"
    by (simp add: folder_names_eq)
  have d: "mismatch_run \<in> set [partial_run, mismatch_run]"
    by simp
  from failed_comparison_aborts_batch
         [where cmp = shape_checked_metrics and metrics = "[]" and resolve = id
            and dataset = "''kitti''", OF d s f c]
    directory_loop_partial_mismatch
  show ?thesis
    by (auto simp: build_benchmark_def assert_debug_def)
qed

theorem failure_not_isolated_counterexample:
  "directory_loop shape_checked_metrics [partial_run] []
      = Inr [(''/results/partial'', partial_entry)]
   \<and> found mismatch_run ''00'' = Some ([1, 2], [0], run_folder ''00'' [1, 2] [0] None)
   \<and> shape_checked_metrics [1, 2] [0] = Inl (Raised ''ShapeMismatch'')
   \<and> directory_loop shape_checked_metrics [partial_run, mismatch_run] []
      = Inl (Raised ''ShapeMismatch'')
   \<and> build_benchmark shape_checked_metrics id ''kitti'' [partial_run, mismatch_run]
      = Inl (Raised ''ShapeMismatch'')"
  using directory_loop_partial directory_loop_partial_mismatch
  by (simp add: build_benchmark_def assert_debug_def found_def mismatch_run_def run_folder_def
      shape_checked_metrics_def)




text \<open>
  C8. For the entries found by the builder, the report holds one table row per ranked entry,
  in ranking order. A row has fourteen cells: the link, one cell per expected sequence name
  00 to 10, the aggregate error and the aggregate time. A sequence cell is the sequence's
  translational error (in percent) with four decimal places, or blank when the sequence is
  missing from the entry; the aggregate error cell has four decimal places for a complete
  entry and is blank for an incomplete one; the aggregate time has three decimal places.
\<close>

theorem report_table_rows:
  assumes "directory_loop cmp directory_list [] = Inr metrics"
  shows "\<exists>lines cmds.
           report_rows resolve metrics (ranked metrics) = Inr (lines, cmds)
         \<and> build_benchmark cmp resolve ''kitti'' directory_list
             = Inr (header @ main_table_head @ lines @ command_head @ cmds)
         \<and> list_all2
             (\<lambda>x line. \<exists>m. map_of metrics (fst x) = Some m
                  \<and> snd x = (AVG_tr_err m, has_all_sequences m)
                  \<and> length (row_cells resolve (fst x) m) = 14
                  \<and> line = ''| '' @ join '' | '' (row_cells resolve (fst x) m) @ '' |''
                             @ [CHR 0x0A])
             (ranked metrics) lines"
proof -
  have dist: "distinct (map fst metrics)"
    using directory_loop_distinct [OF assms] by simp
  have "\<forall>x\<in>set (ranked metrics). \<exists>m. map_of metrics (fst x) = Some m"
    using ranked_entries [OF dist] by blast
  from report_rows_all [OF this, of resolve] obtain lines cmds where
    rows: "report_rows resolve metrics (ranked metrics) = Inr (lines, cmds)"
    and all: "list_all2 (\<lambda>x line. table_line resolve metrics x = Inr line) (ranked metrics) lines"
    by blast
  have row: "\<exists>m. map_of metrics (fst x) = Some m
                  \<and> snd x = (AVG_tr_err m, has_all_sequences m)
                  \<and> length (row_cells resolve (fst x) m) = 14
                  \<and> line = ''| '' @ join '' | '' (row_cells resolve (fst x) m) @ '' |''
                             @ [CHR 0x0A]"
    if "x \<in> set (ranked metrics)" "table_line resolve metrics x = Inr line" for x line
  proof -
    from ranked_entries [OF dist that(1)] obtain m where
      m: "map_of metrics (fst x) = Some m" "snd x = (AVG_tr_err m, has_all_sequences m)"
      by blast
    then have "x = (fst x, AVG_tr_err m, has_all_sequences m)"
      by (metis prod.collapse)
    with table_line_cells [OF m(1), of resolve] that(2)
    have "line = ''| '' @ join '' | '' (row_cells resolve (fst x) m) @ '' |'' @ [CHR 0x0A]"
      by simp
    with m show ?thesis by (simp add: length_row_cells)
  qed
  from all have "list_all2
             (\<lambda>x line. \<exists>m. map_of metrics (fst x) = Some m
                  \<and> snd x = (AVG_tr_err m, has_all_sequences m)
                  \<and> length (row_cells resolve (fst x) m) = 14
                  \<and> line = ''| '' @ join '' | '' (row_cells resolve (fst x) m) @ '' |''
                             @ [CHR 0x0A])
             (ranked metrics) lines"
    by (rule list.rel_mono_strong) (use row in blast)
  moreover from assms rows
  have "build_benchmark cmp resolve ''kitti'' directory_list
             = Inr (header @ main_table_head @ lines @ command_head @ cmds)"
    by (simp add: build_benchmark_def assert_debug_def)
  ultimately show ?thesis using rows by blast
qed

theorem report_table_rows_witness:
  "directory_loop shape_checked_metrics [partial_run] []
     = Inr [(''/results/partial'', partial_entry)]
   \<and> ranked [(''/results/partial'', partial_entry)] = [(''/results/partial'', - 1, False)]
   \<and> map_sum id fst (report_rows id [(''/results/partial'', partial_entry)]
                        (ranked [(''/results/partial'', partial_entry)]))
       = Inr [''| '' @ join '' | ''
                [''[partial](/results/partial)'',
                 ''100.0000'', [], [], [], [], [], [], [], [], [], [],
                 [], ''-1.000''] @ '' |'' @ [CHR 0x0A]]"
proof -
  let ?M = "[(''/results/partial'', partial_entry)]"
  have r: "ranked ?M = [(''/results/partial'', - 1, False)]"
    by (simp add: ranked_def db_metrics_def partial_entry_def)
  have cells: "row_cells id ''/results/partial'' partial_entry
                 = [''[partial](/results/partial)'',
                    ''100.0000'', [], [], [], [], [], [], [], [], [], [], [], ''-1.000'']"
    by (simp add: row_cells_def partial_entry_def folder_names_eq path_link_def basename_def
        format_f_4_100 format_f_3_minus_1)
  from report_table_rows [where cmp = shape_checked_metrics and resolve = id,
      OF directory_loop_partial]
  obtain lines cmds where
    rows: "report_rows id ?M (ranked ?M) = Inr (lines, cmds)"
    and all: "list_all2
             (\<lambda>x line. \<exists>m. map_of ?M (fst x) = Some m
                  \<and> snd x = (AVG_tr_err m, has_all_sequences m)
                  \<and> length (row_cells id (fst x) m) = 14
                  \<and> line = ''| '' @ join '' | '' (row_cells id (fst x) m) @ '' |''
                             @ [CHR 0x0A])
             (ranked ?M) lines"
    by blast
  from all have "lines = [''| '' @ join '' | '' (row_cells id ''/results/partial'' partial_entry)
                            @ '' |'' @ [CHR 0x0A]]"
    unfolding r by (auto simp: list_all2_Cons1)
  with rows r directory_loop_partial show ?thesis
    unfolding cells by simp
qed

theorem incomplete_row_blank_aggregate_counterexample:
  "\<not> has_all_sequences partial_entry
   \<and> format_f 4 (AVG_tr_err partial_entry) = ''-1.0000''
   \<and> table_line id [(''/results/partial'', partial_entry)] (''/results/partial'', - 1, False)
       = Inr (''| '' @ join '' | ''
                [''[partial](/results/partial)'',
                 ''100.0000'', [], [], [], [], [], [], [], [], [], [],
                 [], ''-1.000''] @ '' |'' @ [CHR 0x0A])"
proof -
  have a: "AVG_tr_err partial_entry = - 1" "AVG_time partial_entry = - 1"
    "\<not> has_all_sequences partial_entry"
    by (simp_all add: partial_entry_def)
  have c: "columns partial_entry
             = join '' | '' [''100.0000'', [], [], [], [], [], [], [], [], [], []]"
    by (simp add: columns_def sequence_cell_def partial_entry_def folder_names_eq format_f_4_100)
  have l: "path_link id ''/results/partial'' = ''[partial](/results/partial)''"
    by (simp add: path_link_def basename_def)
  have "table_line id [(''/results/partial'', partial_entry)] (''/results/partial'', - 1, False)
       = Inr (''| '' @ ''[partial](/results/partial)'' @ '' | ''
                @ join '' | '' [''100.0000'', [], [], [], [], [], [], [], [], [], []]
                @ '' | '' @ [] @ '' | '' @ ''-1.000'' @ '' |'' @ [CHR 0x0A])"
    by (simp only: table_line_def prod.case map_of.simps fst_conv snd_conv if_True if_False
          option.case a c l format_f_3_minus_1 fun_upd_same)
  then show ?thesis
    using a by (simp add: format_f_4_minus_1)
qed

end
